theory Spec2Isabelle
  imports Complex_Main "HOL-Library.Multiset"
begin

section \<open>JavaScript numbers\<close>

text \<open>
  The selectors of \<^verbatim>\<open>graph/state/well-log.js\<close> compute with JavaScript numbers.
  The only operations they use are comparison, \<^verbatim>\<open>Math.min\<close>, \<^verbatim>\<open>Math.max\<close>,
  negation, addition, subtraction, halving, \<^verbatim>\<open>isFinite\<close> and truthiness, and they do
  reach the two infinities (\<^verbatim>\<open>Math.min()\<close> of nothing) and NaN (the difference of
  two infinities). A number is therefore a finite value or one of these three.
  Finite values are exact rationals: rounding, overflow and the sign of zero
  are not modelled, and no statement below depends on them.
\<close>

datatype jsnum = Num rat | PInf | NInf | NaN

text \<open>\<^verbatim>\<open>a < b\<close>: false as soon as one side is NaN.\<close>

fun js_lt :: "jsnum \<Rightarrow> jsnum \<Rightarrow> bool" where
  "js_lt (Num a) (Num b) = (a < b)"
| "js_lt NInf (Num b) = True"
| "js_lt NInf PInf = True"
| "js_lt (Num a) PInf = True"
| "js_lt a b = False"

text \<open>\<^verbatim>\<open>a > b\<close> is \<^verbatim>\<open>b < a\<close>.\<close>

definition js_gt :: "jsnum \<Rightarrow> jsnum \<Rightarrow> bool" where
  "js_gt a b = js_lt b a"

text \<open>Truthiness of a number: everything except 0 and NaN.\<close>

fun truthy :: "jsnum \<Rightarrow> bool" where
  "truthy (Num a) = (a \<noteq> 0)"
| "truthy PInf = True"
| "truthy NInf = True"
| "truthy NaN = False"

fun isFinite :: "jsnum \<Rightarrow> bool" where
  "isFinite (Num a) = True"
| "isFinite a = False"

fun js_neg :: "jsnum \<Rightarrow> jsnum" where
  "js_neg (Num a) = Num (- a)"
| "js_neg PInf = NInf"
| "js_neg NInf = PInf"
| "js_neg NaN = NaN"

fun js_add :: "jsnum \<Rightarrow> jsnum \<Rightarrow> jsnum" where
  "js_add (Num a) (Num b) = Num (a + b)"
| "js_add NaN b = NaN"
| "js_add a NaN = NaN"
| "js_add PInf NInf = NaN"
| "js_add NInf PInf = NaN"
| "js_add PInf b = PInf"
| "js_add NInf b = NInf"
| "js_add a PInf = PInf"
| "js_add a NInf = NInf"

text \<open>\<^verbatim>\<open>a - b\<close> is \<^verbatim>\<open>a + (-b)\<close> in IEEE arithmetic.\<close>

definition js_sub :: "jsnum \<Rightarrow> jsnum \<Rightarrow> jsnum" where
  "js_sub a b = js_add a (js_neg b)"

text \<open>\<^verbatim>\<open>a / 2\<close>.\<close>

fun js_half :: "jsnum \<Rightarrow> jsnum" where
  "js_half (Num a) = Num (a / 2)"
| "js_half a = a"

text \<open>
  \<^verbatim>\<open>Math.min(...xs)\<close> and \<^verbatim>\<open>Math.max(...xs)\<close>: NaN if an argument is NaN,
  \<^verbatim>\<open>Infinity\<close> (resp. \<^verbatim>\<open>-Infinity\<close>) for no argument.
\<close>

definition js_min2 :: "jsnum \<Rightarrow> jsnum \<Rightarrow> jsnum" where
  "js_min2 a b = (if a = NaN \<or> b = NaN then NaN else if js_lt b a then b else a)"

definition js_max2 :: "jsnum \<Rightarrow> jsnum \<Rightarrow> jsnum" where
  "js_max2 a b = (if a = NaN \<or> b = NaN then NaN else if js_lt a b then b else a)"

definition Math_min :: "jsnum list \<Rightarrow> jsnum" where
  "Math_min xs = foldr js_min2 xs PInf"

definition Math_max :: "jsnum list \<Rightarrow> jsnum" where
  "Math_max xs = foldr js_max2 xs NInf"


section \<open>Errors\<close>

text \<open>
  Reading a property of \<^verbatim>\<open>undefined\<close> raises a \<^verbatim>\<open>TypeError\<close>; it is the only
  exception the modelled code can raise. A function that can raise returns
  \<open>error + 'a\<close>, with \<open>Inl\<close> for the exception.
\<close>

datatype error = TypeError

fun mapE :: "('a \<Rightarrow> error + 'b) \<Rightarrow> 'a list \<Rightarrow> error + 'b list" where
  "mapE f [] = Inr []"
| "mapE f (a # as) =
     (case f a of
        Inl e \<Rightarrow> Inl e
      | Inr b \<Rightarrow> (case mapE f as of Inl e \<Rightarrow> Inl e | Inr bs \<Rightarrow> Inr (b # bs)))"


section \<open>The well log record\<close>

text \<open>
  A well log as the data service delivers it (decoded JSON): depths and
  diameters are finite numbers, a diameter's value may be \<^verbatim>\<open>null\<close>, and a
  construction element may lack \<^verbatim>\<open>position\<close>, \<^verbatim>\<open>position.coordinates\<close> or
  \<^verbatim>\<open>diameter\<close> (\<open>None\<close>). The keys \<^verbatim>\<open>log_entries\<close> and \<^verbatim>\<open>construction\<close> of a
  well log may be missing too.
\<close>

record coordinates =
  coord_start :: rat
  coord_end :: rat

record shape =
  shape_coordinates :: coordinates

record entry =
  entry_shape :: shape

record position =
  pos_coordinates :: "coordinates option"
  pos_unit :: string

record diameter =
  diam_value :: "rat option"
  diam_unit :: string

record element =
  elem_type :: string
  elem_position :: "position option"
  elem_diameter :: "diameter option"

record wellLog =
  log_entries :: "entry list option"
  construction :: "element list option"

text \<open>
  The part of the Redux state the selectors read: \<^verbatim>\<open>getWellLogs(state)\<close> and
  \<^verbatim>\<open>getCurrentSiteID(state)\<close> (both selectors live in other modules).
\<close>

record state =
  wellLogs :: "string \<Rightarrow> wellLog option"
  currentSiteID :: string


section \<open>Depth extents\<close>

text \<open>\<^verbatim>\<open>wellLogs[siteID] || {}\<close>\<close>

definition getCurrentWellLog :: "state \<Rightarrow> wellLog" where
  "getCurrentWellLog st =
     (case wellLogs st (currentSiteID st) of
        Some wellLog \<Rightarrow> wellLog
      | None \<Rightarrow> \<lparr>log_entries = None, construction = None\<rparr>)"

text \<open>\<^verbatim>\<open>wellLog.log_entries || []\<close>\<close>

definition getWellLogEntries :: "state \<Rightarrow> entry list" where
  "getWellLogEntries st =
     (case log_entries (getCurrentWellLog st) of Some es \<Rightarrow> es | None \<Rightarrow> [])"

definition getWellLogEntriesExtentY :: "state \<Rightarrow> jsnum \<times> jsnum" where
  "getWellLogEntriesExtentY st =
     (let wellLogEntries = getWellLogEntries st in
      if length wellLogEntries = 0 then (Num 0, Num 0)
      else
        (Math_min (map (\<lambda>entry. Num (coord_start (shape_coordinates (entry_shape entry)))) wellLogEntries),
         Math_max (map (\<lambda>entry. Num (coord_end (shape_coordinates (entry_shape entry)))) wellLogEntries)))"

text \<open>
  \<^verbatim>\<open>(wellLog.construction || []).filter(element => element.position && element.position.coordinates)\<close>
\<close>

definition drawable :: "element \<Rightarrow> bool" where
  "drawable element =
     (case elem_position element of
        None \<Rightarrow> False
      | Some p \<Rightarrow> pos_coordinates p \<noteq> None)"

definition getDrawableElements :: "state \<Rightarrow> element list" where
  "getDrawableElements st =
     filter drawable
       (case construction (getCurrentWellLog st) of Some es \<Rightarrow> es | None \<Rightarrow> [])"

text \<open>
  \<^verbatim>\<open>element.position.coordinates\<close>, read as the code reads it: a \<^verbatim>\<open>TypeError\<close>
  when \<^verbatim>\<open>position\<close> is undefined, and again when a field of an undefined
  \<^verbatim>\<open>coordinates\<close> is read.
\<close>

definition positionCoordinates :: "element \<Rightarrow> error + coordinates" where
  "positionCoordinates element =
     (case elem_position element of
        None \<Rightarrow> Inl TypeError
      | Some p \<Rightarrow> (case pos_coordinates p of None \<Rightarrow> Inl TypeError | Some c \<Rightarrow> Inr c))"

definition constructionExtentY :: "element list \<Rightarrow> error + jsnum \<times> jsnum" where
  "constructionExtentY elements =
     (case mapE (\<lambda>elem. map_sum id (\<lambda>c. Num (coord_start c)) (positionCoordinates elem)) elements of
        Inl e \<Rightarrow> Inl e
      | Inr starts \<Rightarrow>
          (case mapE (\<lambda>elem. map_sum id (\<lambda>c. Num (coord_end c)) (positionCoordinates elem)) elements of
             Inl e \<Rightarrow> Inl e
           | Inr ends \<Rightarrow> Inr (Math_min starts, Math_max ends)))"

definition getConstructionExtentY :: "state \<Rightarrow> error + jsnum \<times> jsnum" where
  "getConstructionExtentY st = constructionExtentY (getDrawableElements st)"

definition getWellLogExtentY :: "state \<Rightarrow> error + jsnum \<times> jsnum" where
  "getWellLogExtentY st =
     (let extentA = getWellLogEntriesExtentY st in
      case getConstructionExtentY st of
        Inl e \<Rightarrow> Inl e
      | Inr extentB \<Rightarrow>
          Inr (Math_min [fst extentA, fst extentB], Math_max [snd extentA, snd extentB]))"


section \<open>Collaborators from other modules\<close>

text \<open>
  A d3 scale: the function it applies and its \<^verbatim>\<open>range()\<close>.
\<close>

record scale =
  scale_at :: "jsnum \<Rightarrow> jsnum"
  scale_range :: "jsnum \<times> jsnum"

record chartPos =
  pos_x :: jsnum
  pos_width :: jsnum

record datum =
  datum_value :: jsnum

text \<open>
  What the selectors take from modules that are not part of this development,
  for one chart type and one state: the values of \<^verbatim>\<open>getScaleX(chartType)\<close>,
  \<^verbatim>\<open>getScaleY(chartType)\<close>, \<^verbatim>\<open>getChartPosition(chartType)\<close> and
  \<^verbatim>\<open>getCursorDatum\<close>, d3's \<^verbatim>\<open>scaleLinear().domain(d).range(r)\<close>, lodash's
  \<^verbatim>\<open>capitalize\<close> and the conversion of a number to a string in a template
  literal. They are inputs: every theorem below holds whatever they are.
  \<^verbatim>\<open>createSelector\<close> and \<^verbatim>\<open>memoize\<close> only cache; a selector is the function
  it caches.
\<close>

record chartEnv =
  scaleX :: scale
  scaleY :: scale
  chartPosition :: chartPos
  cursorDatum :: "datum option"
  scaleLinear :: "jsnum \<times> jsnum \<Rightarrow> jsnum \<times> jsnum \<Rightarrow> scale"
  capitalize :: "string \<Rightarrow> string"
  numToString :: "rat \<Rightarrow> string"


section \<open>The water level at the cursor\<close>





section \<open>The radius of the well and its scale\<close>

text \<open>\<^verbatim>\<open>part.diameter.value\<close>: a \<^verbatim>\<open>TypeError\<close> when \<^verbatim>\<open>diameter\<close> is undefined.\<close>

definition diameterValue :: "element \<Rightarrow> error + rat option" where
  "diameterValue part =
     (case elem_diameter part of None \<Rightarrow> Inl TypeError | Some d \<Rightarrow> Inr (diam_value d))"

text \<open>\<^verbatim>\<open>.filter(part => part !== null)\<close>\<close>

fun nonNull :: "'a option list \<Rightarrow> 'a list" where
  "nonNull [] = []"
| "nonNull (None # vs) = nonNull vs"
| "nonNull (Some v # vs) = v # nonNull vs"

definition wellRadius :: "element list \<Rightarrow> error + jsnum" where
  "wellRadius elements =
     (case mapE diameterValue elements of
        Inl e \<Rightarrow> Inl e
      | Inr vs \<Rightarrow>
          (let values = nonNull vs in
           if length values = 0 then Inr (Num 1)
           else Inr (js_half (Math_max (map Num values)))))"

definition getWellRadius :: "state \<Rightarrow> error + jsnum" where
  "getWellRadius st = wellRadius (getDrawableElements st)"

definition getRadiusScale :: "chartEnv \<Rightarrow> state \<Rightarrow> error + scale" where
  "getRadiusScale env st =
     (case getWellRadius st of
        Inl e \<Rightarrow> Inl e
      | Inr r \<Rightarrow>
          (let chartPos = chartPosition env in
           Inr (scaleLinear env (js_neg r, r)
                  (pos_x chartPos, js_add (pos_x chartPos) (pos_width chartPos)))))"


section \<open>Construction elements\<close>

record side =
  side_x :: "jsnum option"
  side_y1 :: jsnum
  side_y2 :: jsnum

record part =
  part_type :: string
  radius :: jsnum
  title :: string
  thickness :: jsnum
  left :: side
  right :: side

text \<open>
  The first pass, for one element. \<^verbatim>\<open>null / 2\<close> is 0, so a null diameter gives
  the radius 0; \<open>side_x = None\<close> is the \<^verbatim>\<open>null\<close> the code stores when the radius
  is falsy.
\<close>

definition constructionPart :: "chartEnv \<Rightarrow> scale \<Rightarrow> scale \<Rightarrow> element \<Rightarrow> error + part" where
  "constructionPart env xScale yScale element =
     (case elem_position element of
        None \<Rightarrow> Inl TypeError
      | Some pos \<Rightarrow>
     (case elem_diameter element of
        None \<Rightarrow> Inl TypeError
      | Some diam \<Rightarrow>
     (case pos_coordinates pos of
        None \<Rightarrow> Inl TypeError
      | Some loc \<Rightarrow>
          (let unit = pos_unit pos;
               dv = diam_value diam;
               r = (case dv of None \<Rightarrow> Num 0 | Some v \<Rightarrow> Num (v / 2));
               diamStr =
                 (if truthy r
                  then (case dv of None \<Rightarrow> ''null'' | Some v \<Rightarrow> numToString env v)
                         @ '' '' @ diam_unit diam
                  else ''unknown'');
               locString =
                 numToString env (coord_start loc) @ '' - '' @ numToString env (coord_end loc)
                   @ '' '' @ unit
           in Inr \<lparr>part_type = elem_type element,
                   radius = r,
                   title = capitalize env (elem_type element) @ '', '' @ diamStr
                             @ '' diameter, '' @ locString @ '' depth'',
                   thickness = js_sub (scale_at xScale (Num (1 / 2))) (scale_at xScale (Num 0)),
                   left = \<lparr>side_x = (if truthy r then Some (scale_at xScale (js_neg r)) else None),
                           side_y1 = scale_at yScale (Num (coord_start loc)),
                           side_y2 = scale_at yScale (Num (coord_end loc))\<rparr>,
                   right = \<lparr>side_x = (if truthy r then Some (scale_at xScale r) else None),
                            side_y1 = scale_at yScale (Num (coord_start loc)),
                            side_y2 = scale_at yScale (Num (coord_end loc))\<rparr>\<rparr>))))"

text \<open>
  The second pass. One turn of the loop at \<open>index\<close>: a part with a truthy radius
  is left alone; otherwise the nearest part to the left and the nearest part to
  the right with a truthy radius are collected, and the part's two x
  coordinates are written in place.
\<close>

fun present :: "'a option \<Rightarrow> 'a list" where
  "present None = []"
| "present (Some a) = [a]"

definition setX :: "part \<Rightarrow> jsnum \<Rightarrow> jsnum \<Rightarrow> part" where
  "setX p xl xr =
     p\<lparr>left := (left p)\<lparr>side_x := Some xl\<rparr>, right := (right p)\<lparr>side_x := Some xr\<rparr>\<rparr>"

definition inferStep :: "scale \<Rightarrow> nat \<Rightarrow> part list \<Rightarrow> part list" where
  "inferStep xScale index parts =
     (let p = parts ! index in
      if truthy (radius p) then parts
      else
        (let neighbors =
               filter (\<lambda>neighbor. truthy (radius neighbor))
                 (present (find (\<lambda>q. truthy (radius q)) (rev (take index parts)))
                  @ present (find (\<lambda>q. truthy (radius q)) (drop (index + 1) parts)));
             m = Math_min (map radius neighbors)
         in if truthy m \<and> isFinite m
            then parts[index := setX p (scale_at xScale (js_neg m)) (scale_at xScale m)]
            else parts[index := setX p (scale_at xScale (js_neg (Num 1))) (scale_at xScale (Num 1))]))"

function inferLoop :: "scale \<Rightarrow> nat \<Rightarrow> part list \<Rightarrow> part list" where
  "inferLoop xScale index parts =
     (if index < length parts
      then inferLoop xScale (index + 1) (inferStep xScale index parts)
      else parts)"
  by pat_completeness auto

termination inferLoop
  by (relation "measure (\<lambda>(xScale, index, parts). length parts - index)")
     (auto simp: inferStep_def Let_def)

declare inferLoop.simps [simp del]

text \<open>
  The third pass: \<^verbatim>\<open>parts.sort(compare)\<close>. \<^verbatim>\<open>Array.prototype.sort\<close> is stable, and
  when the comparator orders the elements consistently its result is the one
  stable sorted arrangement, which insertion from the right computes. (With a
  NaN among the keys the comparator is not consistent and the language leaves
  the order to the engine; the function below then gives one such order.)
\<close>

definition compareParts :: "part \<Rightarrow> part \<Rightarrow> int" where
  "compareParts a b =
     (if js_lt (side_y2 (left a)) (side_y2 (left b)) then 1
      else if js_gt (side_y2 (left a)) (side_y2 (left b)) then - 1
      else if js_lt (radius a) (radius b) then 1
      else if js_gt (radius a) (radius b) then - 1
      else 0)"

fun insertBy :: "('a \<Rightarrow> 'a \<Rightarrow> int) \<Rightarrow> 'a \<Rightarrow> 'a list \<Rightarrow> 'a list" where
  "insertBy cmp a [] = [a]"
| "insertBy cmp a (b # bs) = (if cmp a b \<le> 0 then a # b # bs else b # insertBy cmp a bs)"

definition sortBy :: "('a \<Rightarrow> 'a \<Rightarrow> int) \<Rightarrow> 'a list \<Rightarrow> 'a list" where
  "sortBy cmp as = foldr (insertBy cmp) as []"

text \<open>The combiner of \<^verbatim>\<open>getConstructionElements\<close>, pass by pass.\<close>

definition constructionParts :: "chartEnv \<Rightarrow> scale \<Rightarrow> scale \<Rightarrow> element list \<Rightarrow> error + part list" where
  "constructionParts env xScale yScale elements = mapE (constructionPart env xScale yScale) elements"

definition inferredParts :: "chartEnv \<Rightarrow> scale \<Rightarrow> scale \<Rightarrow> element list \<Rightarrow> error + part list" where
  "inferredParts env xScale yScale elements =
     map_sum id (inferLoop xScale 0) (constructionParts env xScale yScale elements)"

definition constructionElements :: "chartEnv \<Rightarrow> scale \<Rightarrow> scale \<Rightarrow> element list \<Rightarrow> error + part list" where
  "constructionElements env xScale yScale elements =
     map_sum id (sortBy compareParts) (inferredParts env xScale yScale elements)"

text \<open>The selector: the radius scale is computed before the combiner runs.\<close>

definition getConstructionElements :: "chartEnv \<Rightarrow> state \<Rightarrow> error + part list" where
  "getConstructionElements env st =
     (case getRadiusScale env st of
        Inl e \<Rightarrow> Inl e
      | Inr xScale \<Rightarrow> constructionElements env xScale (scaleY env) (getDrawableElements st))"


section \<open>The water level store\<close>

text \<open>
  Arrays are objects: the store, a selector's result and a function's argument
  can all hold the same array. A heap maps a reference to the array's current
  contents, and a record holds the reference.
\<close>

type_synonym ref = nat

type_synonym 's heap = "ref \<Rightarrow> 's list"

record waterLevels =
  elevationReference :: "string option"
  samples :: "ref option"

record wlState =
  wl_data :: "string \<Rightarrow> waterLevels option"
  wl_status :: "string \<Rightarrow> string option"

text \<open>The key of a site: \<^verbatim>\<open>`${agencyCode}:${siteId}`\<close>.\<close>

definition siteKey :: "string \<Rightarrow> string \<Rightarrow> string" where
  "siteKey agencyCode siteId = agencyCode @ '':'' @ siteId"

text \<open>
  The actions of the water level state, with the payloads the tests of
  \<^verbatim>\<open>retrieveWaterLevels\<close> expect.
\<close>

datatype action =
  WATER_LEVELS_CALL_STATUS string string string
| WATER_LEVELS_SET string string waterLevels

text \<open>
  The module \<^verbatim>\<open>services/state/water-levels.js\<close> is not among the sources; only
  its tests are. Its selectors, reducer and retrieval are modelled from the
  specification, with the keys and payloads the tests show.
\<close>

text \<open>
  Modelled from the spec: \<^verbatim>\<open>getSiteWaterLevels\<close>, the store's \<^verbatim>\<open>getRecords\<close> (4.1)
  for water levels: the stored record of the key, or the empty object when the
  key is unknown.
\<close>

definition getSiteWaterLevels :: "string \<Rightarrow> string \<Rightarrow> wlState \<Rightarrow> waterLevels" where
  "getSiteWaterLevels agencyCode siteId st =
     (case wl_data st (siteKey agencyCode siteId) of
        Some levels \<Rightarrow> levels
      | None \<Rightarrow> \<lparr>elevationReference = None, samples = None\<rparr>)"

text \<open>
  Modelled from the spec: \<^verbatim>\<open>getWaterLevelStatus\<close>, the store's \<^verbatim>\<open>getStatus\<close>
  (4.1): the current status of the key, or \<^verbatim>\<open>undefined\<close> when no retrieval was
  attempted.
\<close>

definition getWaterLevelStatus :: "string \<Rightarrow> string \<Rightarrow> wlState \<Rightarrow> string option" where
  "getWaterLevelStatus agencyCode siteId st = wl_status st (siteKey agencyCode siteId)"

text \<open>
  Modelled from the spec: the reducer, the store's \<^verbatim>\<open>setRecords\<close> and
  \<^verbatim>\<open>setStatus\<close> (4.1): setting the records of a key replaces them, the last
  write wins; setting the status of a key sets it.
\<close>

fun reducer :: "wlState \<Rightarrow> action \<Rightarrow> wlState" where
  "reducer st (WATER_LEVELS_SET agencyCode siteId levels) =
     st\<lparr>wl_data := (wl_data st)(siteKey agencyCode siteId \<mapsto> levels)\<rparr>"
| "reducer st (WATER_LEVELS_CALL_STATUS agencyCode siteId status) =
     st\<lparr>wl_status := (wl_status st)(siteKey agencyCode siteId \<mapsto> status)\<rparr>"

text \<open>The state after each of a sequence of dispatched actions.\<close>

fun statesAfter :: "wlState \<Rightarrow> action list \<Rightarrow> wlState list" where
  "statesAfter st [] = []"
| "statesAfter st (a # as) = reducer st a # statesAfter (reducer st a) as"

text \<open>
  Modelled from the spec: the retrieval of the spec's orchestrator (4.2), which
  \<^verbatim>\<open>services/state/water-levels.js\<close> implements. Nothing is done for a key whose
  status is STARTED or DONE. Otherwise the status is set to STARTED and the
  fetch is issued; when it succeeds the parsed records are stored and the status
  is set to DONE, when it fails the status is set to FAILED. The result is the
  sequence of actions dispatched, in the order of dispatch; the outcome of the
  fetch is an input.
\<close>

datatype response = Resolved waterLevels | Rejected

definition retrieveWaterLevels ::
  "(string \<Rightarrow> string \<Rightarrow> response) \<Rightarrow> string \<Rightarrow> string \<Rightarrow> wlState \<Rightarrow> action list" where
  "retrieveWaterLevels fetch agencyCode siteId st =
     (if getWaterLevelStatus agencyCode siteId st = Some ''STARTED''
         \<or> getWaterLevelStatus agencyCode siteId st = Some ''DONE''
      then []
      else
        WATER_LEVELS_CALL_STATUS agencyCode siteId ''STARTED'' #
        (case fetch agencyCode siteId of
           Resolved levels \<Rightarrow>
             [WATER_LEVELS_SET agencyCode siteId levels,
              WATER_LEVELS_CALL_STATUS agencyCode siteId ''DONE'']
         | Rejected \<Rightarrow> [WATER_LEVELS_CALL_STATUS agencyCode siteId ''FAILED'']))"


section \<open>The median water level table\<close>

text \<open>
  \<^verbatim>\<open>drawTableBody\<close>. The table and its body are DOM nodes and play no part
  here; what the function does to data is: it takes the record's samples array
  (a fresh empty array when there is none), reverses it with
  \<^verbatim>\<open>Array.prototype.reverse\<close>, which reverses the array in place and returns it,
  and hands that array to the list widget. The result is the heap afterwards
  and the rows handed to the widget.
\<close>

definition drawTableBody :: "'s heap \<Rightarrow> waterLevels \<Rightarrow> 's heap \<times> 's list" where
  "drawTableBody h levels =
     (case samples levels of
        None \<Rightarrow> (h, rev [])
      | Some r \<Rightarrow> (h(r := rev (h r)), rev (h r)))"

text \<open>
  The callback the component links to the store: it is called with
  \<^verbatim>\<open>isRendered\<close> and the selected site's record, and draws when the table is
  rendered.
\<close>

definition linkedDraw :: "'s heap \<Rightarrow> wlState \<Rightarrow> bool \<Rightarrow> string \<Rightarrow> string \<Rightarrow> 's heap \<times> 's list option" where
  "linkedDraw h st isRendered agencyCode siteId =
     (if isRendered
      then (let (h', rows) = drawTableBody h (getSiteWaterLevels agencyCode siteId st)
            in (h', Some rows))
      else (h, None))"

text \<open>The samples of a site as the store holds them.\<close>

definition storedSamples :: "'s heap \<Rightarrow> wlState \<Rightarrow> string \<Rightarrow> string \<Rightarrow> 's list" where
  "storedSamples h st agencyCode siteId =
     (case samples (getSiteWaterLevels agencyCode siteId st) of
        None \<Rightarrow> []
      | Some r \<Rightarrow> h r)"





section \<open>The radius rule, as the specification words it\<close>

text \<open>
  For an element whose radius is falsy: the nearest element before it and the
  nearest element after it, in list order, that have a truthy radius; the
  smaller of their radii when both exist, the one that exists otherwise, and 1
  when there is none. An element with a truthy radius keeps its own.
\<close>

definition nearestBefore :: "jsnum list \<Rightarrow> nat \<Rightarrow> jsnum option" where
  "nearestBefore radii i = find truthy (rev (take i radii))"

definition nearestAfter :: "jsnum list \<Rightarrow> nat \<Rightarrow> jsnum option" where
  "nearestAfter radii i = find truthy (drop (Suc i) radii)"

definition smaller :: "jsnum \<Rightarrow> jsnum \<Rightarrow> jsnum" where
  "smaller a b = (if js_lt b a then b else a)"

definition neighbourRadius :: "jsnum list \<Rightarrow> nat \<Rightarrow> jsnum" where
  "neighbourRadius radii i =
     (case (nearestBefore radii i, nearestAfter radii i) of
        (None, None) \<Rightarrow> Num 1
      | (Some a, None) \<Rightarrow> a
      | (None, Some b) \<Rightarrow> b
      | (Some a, Some b) \<Rightarrow> smaller a b)"

definition resolvedRadius :: "jsnum list \<Rightarrow> nat \<Rightarrow> jsnum" where
  "resolvedRadius radii i = (if truthy (radii ! i) then radii ! i else neighbourRadius radii i)"


section \<open>The drawing order, as the specification words it\<close>

text \<open>
  \<open>a\<close> may be drawn before \<open>b\<close>: \<open>a\<close> ends deeper (\<^verbatim>\<open>left.y2\<close> greater), or
  they end at the same depth and the radius of \<open>a\<close> is not the smaller one.
\<close>

definition zOrder :: "part \<Rightarrow> part \<Rightarrow> bool" where
  "zOrder a b =
     (js_gt (side_y2 (left a)) (side_y2 (left b))
      \<or> (side_y2 (left a) = side_y2 (left b)
          \<and> (js_gt (radius a) (radius b) \<or> radius a = radius b)))"

text \<open>The pair a part is sorted by.\<close>

definition sortKey :: "part \<Rightarrow> jsnum \<times> jsnum" where
  "sortKey p = (side_y2 (left p), radius p)"

text \<open>Neither component of the pair is NaN.\<close>

definition keysDefined :: "part \<Rightarrow> bool" where
  "keysDefined p = (side_y2 (left p) \<noteq> NaN \<and> radius p \<noteq> NaN)"


section \<open>Concrete inputs\<close>

text \<open>A state whose current site is \<open>USGS:1\<close>, with the given well log.\<close>

definition stateWith :: "wellLog \<Rightarrow> state" where
  "stateWith wl =
     \<lparr>wellLogs = (\<lambda>k. if k = ''USGS:1'' then Some wl else None), currentSiteID = ''USGS:1''\<rparr>"

definition mkEntry :: "rat \<Rightarrow> rat \<Rightarrow> entry" where
  "mkEntry a b = \<lparr>entry_shape = \<lparr>shape_coordinates = \<lparr>coord_start = a, coord_end = b\<rparr>\<rparr>\<rparr>"

text \<open>Two log entries, 5 to 10 and 2 to 20, and no construction.\<close>

definition twoEntries :: state where
  "twoEntries = stateWith \<lparr>log_entries = Some [mkEntry 5 10, mkEntry 2 20], construction = None\<rparr>"

text \<open>No log entry, and one construction element that has no position.\<close>

definition nothingDrawable :: state where
  "nothingDrawable =
     stateWith \<lparr>log_entries = Some [],
                construction = Some [\<lparr>elem_type = ''casing'', elem_position = None,
                                      elem_diameter = Some \<lparr>diam_value = Some 4, diam_unit = ''in''\<rparr>\<rparr>]\<rparr>"

text \<open>
  Collaborators for the examples: scales that map a number to itself, the
  horizontal range 0 to 100, a cursor at the value 3.
\<close>

definition idScale :: scale where
  "idScale = \<lparr>scale_at = (\<lambda>v. v), scale_range = (Num 0, Num 100)\<rparr>"

definition exampleEnv :: chartEnv where
  "exampleEnv =
     \<lparr>scaleX = idScale, scaleY = idScale,
      chartPosition = \<lparr>pos_x = Num 0, pos_width = Num 100\<rparr>,
      cursorDatum = Some \<lparr>datum_value = Num 3\<rparr>,
      scaleLinear = (\<lambda>d r. \<lparr>scale_at = (\<lambda>v. v), scale_range = r\<rparr>),
      capitalize = (\<lambda>s. s),
      numToString = (\<lambda>q. ''#'')\<rparr>"

text \<open>A drawable casing from depth \<open>a\<close> to depth \<open>b\<close> with the diameter value \<open>d\<close>.\<close>

definition mkElement :: "rat \<Rightarrow> rat \<Rightarrow> rat option \<Rightarrow> element" where
  "mkElement a b d =
     \<lparr>elem_type = ''casing'',
      elem_position = Some \<lparr>pos_coordinates = Some \<lparr>coord_start = a, coord_end = b\<rparr>,
                            pos_unit = ''ft''\<rparr>,
      elem_diameter = Some \<lparr>diam_value = d, diam_unit = ''in''\<rparr>\<rparr>"


text \<open>One element with a position and coordinates and no diameter.\<close>

definition noDiameter :: state where
  "noDiameter =
     stateWith \<lparr>log_entries = None,
                construction = Some [(mkElement 0 10 None)\<lparr>elem_diameter := None\<rparr>]\<rparr>"

text \<open>
  A casing with a null diameter value, and an element that has neither a
  position nor a diameter.
\<close>

definition casingAndStray :: state where
  "casingAndStray =
     stateWith \<lparr>log_entries = None,
                construction = Some [mkElement 0 10 None,
                                     \<lparr>elem_type = ''screen'', elem_position = None,
                                      elem_diameter = None\<rparr>]\<rparr>"

text \<open>Four casings with the diameter values 4, null, 0 and 10: the radii 2, 0, 0, 5.\<close>

definition fourCasings :: "element list" where
  "fourCasings =
     [mkElement 0 10 (Some 4), mkElement 10 20 None, mkElement 20 30 (Some 0),
      mkElement 30 40 (Some 10)]"

text \<open>
  Three casings ending at 10, 10 and 5 with the diameters 4, 10 and 6: the
  pairs (y2, radius) are (10, 2), (10, 5), (5, 3) on scales that map a number
  to itself.
\<close>

definition threeCasings :: "element list" where
  "threeCasings = [mkElement 0 10 (Some 4), mkElement 0 10 (Some 10), mkElement 0 5 (Some 6)]"

text \<open>Stores: nothing retrieved yet, and the site USGS 430406089232901 with a given status.\<close>

definition emptyStore :: wlState where
  "emptyStore = \<lparr>wl_data = (\<lambda>k. None), wl_status = (\<lambda>k. None)\<rparr>"


text \<open>
  A record whose samples are the array at reference 0, a heap in which that
  array holds 1, 2, 3, a store that holds the record, and a fetch that
  resolves with it.
\<close>

definition exampleLevels :: waterLevels where
  "exampleLevels = \<lparr>elevationReference = Some ''111.3'', samples = Some 0\<rparr>"

definition exampleHeap :: "nat heap" where
  "exampleHeap = (\<lambda>r. if r = 0 then [1, 2, 3] else [])"

definition storeWithLevels :: wlState where
  "storeWithLevels =
     reducer emptyStore (WATER_LEVELS_SET ''USGS'' ''430406089232901'' exampleLevels)"

definition exampleFetch :: "string \<Rightarrow> string \<Rightarrow> response" where
  "exampleFetch agencyCode siteId = Resolved exampleLevels"

text \<open>The state whose current well log has the three casings as its construction.\<close>

definition threeCasingsState :: state where
  "threeCasingsState = stateWith \<lparr>log_entries = None, construction = Some threeCasings\<rparr>"

text \<open>The state whose current well log has the four casings as its construction.\<close>

definition fourCasingsState :: state where
  "fourCasingsState = stateWith \<lparr>log_entries = None, construction = Some fourCasings\<rparr>"

section \<open>Numbers and lists\<close>

lemma Math_min_Num: "Math_min (map Num xs) = (if xs = [] then PInf else Num (Min (set xs)))"
proof (induction xs)
  case Nil
  show ?case by (simp add: Math_min_def)
next
  case (Cons a xs)
  show ?case
  proof (cases "xs = []")
    case True
    then show ?thesis by (simp add: Math_min_def js_min2_def)
  next
    case False
    with Cons have "Math_min (map Num xs) = Num (Min (set xs))" by simp
    then have "Math_min (map Num (a # xs)) = js_min2 (Num a) (Num (Min (set xs)))"
      by (simp add: Math_min_def)
    also have "\<dots> = Num (min a (Min (set xs)))"
      by (auto simp: js_min2_def min_def)
    finally show ?thesis using False by simp
  qed
qed

lemma Math_max_Num: "Math_max (map Num xs) = (if xs = [] then NInf else Num (Max (set xs)))"
proof (induction xs)
  case Nil
  show ?case by (simp add: Math_max_def)
next
  case (Cons a xs)
  show ?case
  proof (cases "xs = []")
    case True
    then show ?thesis by (simp add: Math_max_def js_max2_def)
  next
    case False
    with Cons have "Math_max (map Num xs) = Num (Max (set xs))" by simp
    then have "Math_max (map Num (a # xs)) = js_max2 (Num a) (Num (Max (set xs)))"
      by (simp add: Math_max_def)
    also have "\<dots> = Num (max a (Max (set xs)))"
      by (auto simp: js_max2_def max_def)
    finally show ?thesis using False by simp
  qed
qed

lemma Math_min_Num_map:
  "Math_min (map (\<lambda>e. Num (f e)) es) = (if es = [] then PInf else Num (Min (set (map f es))))"
  using Math_min_Num [of "map f es"] by (simp add: comp_def)

lemma Math_max_Num_map:
  "Math_max (map (\<lambda>e. Num (f e)) es) = (if es = [] then NInf else Num (Max (set (map f es))))"
  using Math_max_Num [of "map f es"] by (simp add: comp_def)

lemma Math_min_pair_finite:
  "m = PInf \<or> (\<exists>x. m = Num x) \<Longrightarrow> \<exists>y. Math_min [Num a, m] = Num y"
  by (auto simp: Math_min_def js_min2_def)

lemma Math_max_pair_finite:
  "m = NInf \<or> (\<exists>x. m = Num x) \<Longrightarrow> \<exists>y. Math_max [Num a, m] = Num y"
  by (auto simp: Math_max_def js_max2_def)

lemma mapE_Inr: "(\<And>a. a \<in> set as \<Longrightarrow> f a = Inr (g a)) \<Longrightarrow> mapE f as = Inr (map g as)"
  by (induction as) simp_all


section \<open>Depth extents: theorems\<close>

lemma drawable_getDrawableElements: "\<forall>e\<in>set (getDrawableElements st). drawable e"
  by (simp add: getDrawableElements_def)

text \<open>On a drawable element, reading the coordinates does not raise.\<close>

lemma drawable_positionCoordinates:
  "drawable e \<Longrightarrow> \<exists>c. positionCoordinates e = Inr c"
  by (auto simp: drawable_def positionCoordinates_def split: option.splits)

lemma constructionExtentY_drawable:
  assumes "\<forall>e\<in>set es. drawable e"
  shows "\<exists>starts ends. length starts = length es \<and> length ends = length es \<and>
           constructionExtentY es = Inr (Math_min (map Num starts), Math_max (map Num ends))"
proof -
  define co where "co e = (case positionCoordinates e of Inr c \<Rightarrow> c)" for e
  have co: "positionCoordinates e = Inr (co e)" if "e \<in> set es" for e
    using drawable_positionCoordinates [of e] assms that by (auto simp: co_def)
  have a: "mapE (\<lambda>elem. map_sum id (\<lambda>c. Num (coord_start c)) (positionCoordinates elem)) es
         = Inr (map (\<lambda>e. Num (coord_start (co e))) es)"
    by (rule mapE_Inr) (simp add: co)
  have b: "mapE (\<lambda>elem. map_sum id (\<lambda>c. Num (coord_end c)) (positionCoordinates elem)) es
         = Inr (map (\<lambda>e. Num (coord_end (co e))) es)"
    by (rule mapE_Inr) (simp add: co)
  have "constructionExtentY es =
          Inr (Math_min (map Num (map (\<lambda>e. coord_start (co e)) es)),
               Math_max (map Num (map (\<lambda>e. coord_end (co e)) es)))"
    by (simp add: constructionExtentY_def a b comp_def)
  then show ?thesis
    by (metis length_map)
qed

lemma entriesExtentY_finite: "\<exists>a b. getWellLogEntriesExtentY st = (Num a, Num b)"
  by (simp add: getWellLogEntriesExtentY_def Let_def Math_min_Num_map Math_max_Num_map)

lemma constructionExtentY_Nil: "constructionExtentY [] = Inr (PInf, NInf)"
  by (simp add: constructionExtentY_def Math_min_def Math_max_def)

text \<open>
  C6. \<^verbatim>\<open>getWellLogEntriesExtentY\<close> is [0, 0] when there is no entry, and otherwise
  the least \<^verbatim>\<open>shape.coordinates.start\<close> and the greatest
  \<^verbatim>\<open>shape.coordinates.end\<close> over all entries.
\<close>

theorem C6_entries_extent:
  "getWellLogEntriesExtentY st =
     (if getWellLogEntries st = [] then (Num 0, Num 0)
      else (Num (Min (set (map (\<lambda>entry. coord_start (shape_coordinates (entry_shape entry)))
                            (getWellLogEntries st)))),
            Num (Max (set (map (\<lambda>entry. coord_end (shape_coordinates (entry_shape entry)))
                            (getWellLogEntries st))))))"
  by (simp add: getWellLogEntriesExtentY_def Let_def Math_min_Num_map Math_max_Num_map)

text \<open>The entries 5 to 10 and 2 to 20 give [2, 20]; no entry gives [0, 0].\<close>

theorem C6_entries_extent_witness:
  "getWellLogEntriesExtentY twoEntries = (Num 2, Num 20)
   \<and> getWellLogEntriesExtentY nothingDrawable = (Num 0, Num 0)"
  using C6_entries_extent [of twoEntries] C6_entries_extent [of nothingDrawable]
  by (simp add: twoEntries_def nothingDrawable_def stateWith_def mkEntry_def
      getWellLogEntries_def getCurrentWellLog_def)

text \<open>
  C7. When the current well log has no drawable construction element,
  \<^verbatim>\<open>getConstructionExtentY\<close> returns [Infinity, -Infinity].
\<close>

theorem C7_construction_extent_empty:
  "getDrawableElements st = [] \<Longrightarrow> getConstructionExtentY st = Inr (PInf, NInf)"
  by (simp add: getConstructionExtentY_def constructionExtentY_Nil)

theorem C7_construction_extent_empty_witness:
  "getDrawableElements nothingDrawable = []
   \<and> getConstructionExtentY nothingDrawable = Inr (PInf, NInf)"
proof -
  have d: "getDrawableElements nothingDrawable = []"
    by (simp add: nothingDrawable_def stateWith_def getDrawableElements_def
        getCurrentWellLog_def drawable_def)
  show ?thesis
    using d C7_construction_extent_empty [OF d] by simp
qed

text \<open>
  C10. When the current well log has no drawable construction element,
  \<^verbatim>\<open>getWellLogExtentY\<close> is \<^verbatim>\<open>getWellLogEntriesExtentY\<close>, and it is [0, 0] when
  there is no entry either. In every state \<^verbatim>\<open>getWellLogExtentY\<close> returns a pair
  of finite numbers.
\<close>

theorem C10_extent_without_construction:
  "(getDrawableElements st = [] \<longrightarrow>
      getWellLogExtentY st = Inr (getWellLogEntriesExtentY st)
      \<and> (getWellLogEntries st = [] \<longrightarrow> getWellLogExtentY st = Inr (Num 0, Num 0)))
   \<and> (\<exists>a b. getWellLogExtentY st = Inr (Num a, Num b))"
proof -
  obtain a b where ab: "getWellLogEntriesExtentY st = (Num a, Num b)"
    using entriesExtentY_finite by blast
  have same: "getWellLogExtentY st = Inr (getWellLogEntriesExtentY st)"
    if "getDrawableElements st = []"
    using that
    by (simp add: getWellLogExtentY_def getConstructionExtentY_def constructionExtentY_Nil ab
        Math_min_def Math_max_def js_min2_def js_max2_def)
  have zero: "getWellLogEntriesExtentY st = (Num 0, Num 0)" if "getWellLogEntries st = []"
    using that by (simp add: getWellLogEntriesExtentY_def)
  obtain starts ends where
    c: "getConstructionExtentY st = Inr (Math_min (map Num starts), Math_max (map Num ends))"
    using constructionExtentY_drawable [OF drawable_getDrawableElements, of st]
    unfolding getConstructionExtentY_def by blast
  have "Math_min (map Num starts) = PInf \<or> (\<exists>x. Math_min (map Num starts) = Num x)"
    by (simp add: Math_min_Num)
  then obtain y where y: "Math_min [Num a, Math_min (map Num starts)] = Num y"
    using Math_min_pair_finite by blast
  have "Math_max (map Num ends) = NInf \<or> (\<exists>x. Math_max (map Num ends) = Num x)"
    by (simp add: Math_max_Num)
  then obtain z where z: "Math_max [Num b, Math_max (map Num ends)] = Num z"
    using Math_max_pair_finite by blast
  have "getWellLogExtentY st =
          Inr (Math_min [Num a, Math_min (map Num starts)], Math_max [Num b, Math_max (map Num ends)])"
    by (simp add: getWellLogExtentY_def c ab)
  then have fin: "\<exists>a b. getWellLogExtentY st = Inr (Num a, Num b)"
    unfolding y z by blast
  show ?thesis
    using same zero fin by simp
qed

theorem C10_extent_without_construction_witness:
  "getDrawableElements twoEntries = []
   \<and> getWellLogExtentY twoEntries = Inr (Num 2, Num 20)
   \<and> getDrawableElements nothingDrawable = [] \<and> getWellLogEntries nothingDrawable = []
   \<and> getWellLogExtentY nothingDrawable = Inr (Num 0, Num 0)"
proof -
  have d1: "getDrawableElements twoEntries = []"
    by (simp add: twoEntries_def stateWith_def getDrawableElements_def getCurrentWellLog_def)
  have e1: "getWellLogEntriesExtentY twoEntries = (Num 2, Num 20)"
    by (simp add: twoEntries_def stateWith_def mkEntry_def getWellLogEntriesExtentY_def
        getWellLogEntries_def getCurrentWellLog_def Math_min_def Math_max_def
        js_min2_def js_max2_def)
  have d2: "getDrawableElements nothingDrawable = []"
    by (simp add: nothingDrawable_def stateWith_def getDrawableElements_def
        getCurrentWellLog_def drawable_def)
  have e2: "getWellLogEntries nothingDrawable = []"
    by (simp add: nothingDrawable_def stateWith_def getWellLogEntries_def getCurrentWellLog_def)
  have e3: "getWellLogEntriesExtentY nothingDrawable = (Num 0, Num 0)"
    by (simp add: getWellLogEntriesExtentY_def e2)
  show ?thesis
    using C10_extent_without_construction [of twoEntries]
      C10_extent_without_construction [of nothingDrawable] d1 e1 d2 e2 e3
    by simp
qed

section \<open>The water level at the cursor: theorems\<close>







section \<open>Missing fields: theorems\<close>

lemma mapE_total:
  "(\<And>a. a \<in> set as \<Longrightarrow> \<exists>b. f a = Inr b) \<Longrightarrow> \<exists>bs. mapE f as = Inr bs \<and> length bs = length as"
proof (induction as)
  case Nil
  show ?case by simp
next
  case (Cons a as)
  obtain b where b: "f a = Inr b" using Cons.prems [of a] by auto
  obtain bs where bs: "mapE f as = Inr bs" "length bs = length as"
    using Cons.IH Cons.prems by auto
  show ?case by (simp add: b bs)
qed

lemma wellRadius_total:
  assumes "\<And>e. e \<in> set es \<Longrightarrow> elem_diameter e \<noteq> None"
  shows "\<exists>r. wellRadius es = Inr r"
proof -
  have "\<exists>vs. mapE diameterValue es = Inr vs \<and> length vs = length es"
    by (rule mapE_total) (use assms in \<open>fastforce simp: diameterValue_def split: option.splits\<close>)
  then obtain vs where "mapE diameterValue es = Inr vs" by blast
  then show ?thesis by (simp add: wellRadius_def Let_def)
qed

lemma constructionPart_total:
  assumes "drawable e" "elem_diameter e \<noteq> None"
  shows "\<exists>p. constructionPart env xScale yScale e = Inr p"
  using assms
  by (auto simp: constructionPart_def drawable_def Let_def split: option.splits)

lemma constructionParts_total:
  assumes "\<And>e. e \<in> set es \<Longrightarrow> drawable e \<and> elem_diameter e \<noteq> None"
  shows "\<exists>ps. constructionParts env xScale yScale es = Inr ps \<and> length ps = length es"
  unfolding constructionParts_def
  by (rule mapE_total) (use assms constructionPart_total in blast)

lemma length_insertBy: "length (insertBy cmp a bs) = Suc (length bs)"
  by (induction bs) simp_all

lemma length_sortBy: "length (sortBy cmp as) = length as"
  by (induction as) (simp_all add: sortBy_def length_insertBy)

lemma length_inferStep: "length (inferStep xScale index parts) = length parts"
  by (simp add: inferStep_def Let_def)

lemma length_inferLoop: "length (inferLoop xScale index parts) = length parts"
proof (induction xScale index parts rule: inferLoop.induct)
  case (1 xScale index parts)
  show ?case
  proof (cases "index < length parts")
    case True
    with 1 show ?thesis
      by (simp add: inferLoop.simps [of xScale index parts] length_inferStep)
  next
    case False
    then show ?thesis by (simp add: inferLoop.simps [of xScale index parts])
  qed
qed

lemma constructionElements_total:
  assumes "\<And>e. e \<in> set es \<Longrightarrow> drawable e \<and> elem_diameter e \<noteq> None"
  shows "\<exists>ps. constructionElements env xScale yScale es = Inr ps \<and> length ps = length es"
proof -
  obtain ps where "constructionParts env xScale yScale es = Inr ps" "length ps = length es"
    using constructionParts_total [OF assms] by blast
  then show ?thesis
    by (simp add: constructionElements_def inferredParts_def length_sortBy length_inferLoop)
qed

text \<open>
  C3, as amended. When every drawable construction element has a diameter
  object (its value may be null), \<^verbatim>\<open>getWellRadius\<close> and
  \<^verbatim>\<open>getConstructionElements\<close> return without raising, the latter with one part
  for each drawable element. Elements without a position or without coordinates
  are filtered out, whatever else they lack.
\<close>

theorem C3_diameter_present_no_error:
  assumes "\<forall>e\<in>set (getDrawableElements st). elem_diameter e \<noteq> None"
  shows "(\<exists>r. getWellRadius st = Inr r)
         \<and> (\<exists>ps. getConstructionElements env st = Inr ps
                 \<and> length ps = length (getDrawableElements st))"
proof -
  have d: "elem_diameter e \<noteq> None" if "e \<in> set (getDrawableElements st)" for e
    using assms that by blast
  obtain r where r: "getWellRadius st = Inr r"
    unfolding getWellRadius_def using wellRadius_total [OF d] by blast
  have "drawable e \<and> elem_diameter e \<noteq> None" if "e \<in> set (getDrawableElements st)" for e
    using d that drawable_getDrawableElements by blast
  then have "\<exists>ps. constructionElements env xScale (scaleY env) (getDrawableElements st) = Inr ps
                 \<and> length ps = length (getDrawableElements st)" for xScale
    by (rule constructionElements_total)
  then show ?thesis
    by (simp add: r getConstructionElements_def getRadiusScale_def Let_def)
qed

lemma casingAndStray_drawable: "getDrawableElements casingAndStray = [mkElement 0 10 None]"
  by (simp add: casingAndStray_def stateWith_def getDrawableElements_def getCurrentWellLog_def
      drawable_def mkElement_def)

theorem C3_diameter_present_no_error_witness:
  "getDrawableElements casingAndStray = [mkElement 0 10 None]
   \<and> elem_diameter (mkElement 0 10 None) = Some \<lparr>diam_value = None, diam_unit = ''in''\<rparr>
   \<and> getWellRadius casingAndStray = Inr (Num 1)
   \<and> getConstructionElements exampleEnv casingAndStray \<noteq> Inl TypeError"
proof -
  have a: "\<forall>e\<in>set (getDrawableElements casingAndStray). elem_diameter e \<noteq> None"
    by (simp add: casingAndStray_drawable mkElement_def)
  have w: "getWellRadius casingAndStray = Inr (Num 1)"
    by (simp add: getWellRadius_def casingAndStray_drawable wellRadius_def diameterValue_def
        mkElement_def)
  show ?thesis
    using C3_diameter_present_no_error [OF a, of exampleEnv] w
    by (auto simp: casingAndStray_drawable mkElement_def)
qed

lemma noDiameter_drawable:
  "getDrawableElements noDiameter = [(mkElement 0 10 None)\<lparr>elem_diameter := None\<rparr>]"
  by (simp add: noDiameter_def stateWith_def getDrawableElements_def getCurrentWellLog_def
      drawable_def mkElement_def)

text \<open>
  C3 as stated fails: an element with a position and coordinates and no
  diameter is drawable, and both selectors raise a \<^verbatim>\<open>TypeError\<close> on it, when
  they read \<^verbatim>\<open>diameter.value\<close>.
\<close>

theorem C3_missing_diameter_counterexample:
  "drawable ((mkElement 0 10 None)\<lparr>elem_diameter := None\<rparr>)
   \<and> getDrawableElements noDiameter = [(mkElement 0 10 None)\<lparr>elem_diameter := None\<rparr>]
   \<and> getWellRadius noDiameter = Inl TypeError
   \<and> getConstructionElements exampleEnv noDiameter = Inl TypeError"
  by (simp add: noDiameter_drawable getWellRadius_def wellRadius_def diameterValue_def
      getConstructionElements_def getRadiusScale_def)
     (simp add: drawable_def mkElement_def)

section \<open>Radius inference: theorems\<close>

lemma find_map_radius:
  "find truthy (map radius qs) = map_option radius (find (\<lambda>q. truthy (radius q)) qs)"
  by (induction qs) simp_all

lemma find_holds: "find P xs = Some x \<Longrightarrow> P x \<and> x \<in> set xs"
  by (induction xs) (auto split: if_splits)

lemma radius_setX: "radius (setX p a b) = radius p"
  by (simp add: setX_def)

lemma map_radius_update: "map radius (ps[i := setX (ps ! i) a b]) = map radius ps"
proof (cases "i < length ps")
  case True
  then have "(map radius ps)[i := radius (ps ! i)] = map radius ps"
    by (metis list_update_id nth_map)
  then show ?thesis
    by (simp add: map_update radius_setX)
next
  case False
  then have "ps[i := setX (ps ! i) a b] = ps"
    by (simp add: list_update_beyond)
  then show ?thesis by simp
qed

lemma map_radius_inferStep: "map radius (inferStep xScale i ps) = map radius ps"
  by (simp add: inferStep_def Let_def map_radius_update)

lemma inferStep_other: "j \<noteq> i \<Longrightarrow> inferStep xScale i ps ! j = ps ! j"
  by (simp add: inferStep_def Let_def)

lemma inferStep_truthy: "truthy (radius (ps ! i)) \<Longrightarrow> inferStep xScale i ps = ps"
  by (simp add: inferStep_def)

text \<open>The radii the loop collects around \<open>i\<close> are the two nearest truthy ones.\<close>

lemma neighbours_radii:
  "map radius
     (filter (\<lambda>neighbor. truthy (radius neighbor))
        (present (find (\<lambda>q. truthy (radius q)) (rev (take i ps)))
         @ present (find (\<lambda>q. truthy (radius q)) (drop (i + 1) ps))))
   = present (nearestBefore (map radius ps) i) @ present (nearestAfter (map radius ps) i)"
proof -
  let ?A = "find (\<lambda>q. truthy (radius q)) (rev (take i ps))"
  let ?B = "find (\<lambda>q. truthy (radius q)) (drop (i + 1) ps)"
  have fa: "filter (\<lambda>n. truthy (radius n)) (present ?A) = present ?A"
    by (cases ?A) (auto dest: find_holds)
  have fb: "filter (\<lambda>n. truthy (radius n)) (present ?B) = present ?B"
    by (cases ?B) (auto dest: find_holds)
  have a: "nearestBefore (map radius ps) i = map_option radius ?A"
    by (simp add: nearestBefore_def take_map rev_map find_map_radius)
  have b: "nearestAfter (map radius ps) i = map_option radius ?B"
    by (simp add: nearestAfter_def drop_map find_map_radius)
  have pa: "map radius (present ?A) = present (map_option radius ?A)" by (cases ?A) simp_all
  have pb: "map radius (present ?B) = present (map_option radius ?B)" by (cases ?B) simp_all
  show ?thesis
    by (simp only: filter_append fa fb map_append pa pb a b)
qed

lemma nearestBefore_in: "nearestBefore radii i = Some a \<Longrightarrow> truthy a \<and> a \<in> set radii"
  unfolding nearestBefore_def by (auto dest!: find_holds in_set_takeD)

lemma nearestAfter_in: "nearestAfter radii i = Some a \<Longrightarrow> truthy a \<and> a \<in> set radii"
  unfolding nearestAfter_def by (auto dest!: find_holds in_set_dropD)

text \<open>
  On finite radii the minimum the loop takes is the specified neighbour radius,
  and the loop's test on it succeeds exactly when a neighbour exists.
\<close>

lemma Math_min_neighbours:
  assumes "\<forall>r\<in>set radii. isFinite r"
  shows "(let m = Math_min (present (nearestBefore radii i) @ present (nearestAfter radii i))
          in if truthy m \<and> isFinite m then m else Num 1) = neighbourRadius radii i"
proof -
  have fin: "\<exists>q. a = Num q \<and> q \<noteq> 0" if "nearestBefore radii i = Some a \<or> nearestAfter radii i = Some a" for a
  proof -
    from that have "truthy a \<and> a \<in> set radii"
      using nearestBefore_in nearestAfter_in by blast
    with assms show ?thesis by (cases a) auto
  qed
  show ?thesis
  proof (cases "nearestBefore radii i")
    case None
    note nb = this
    show ?thesis
    proof (cases "nearestAfter radii i")
      case None
      with nb show ?thesis by (simp add: neighbourRadius_def Math_min_def)
    next
      case (Some b)
      with fin obtain q where "b = Num q" "q \<noteq> 0" by blast
      with nb Some show ?thesis
        by (simp add: neighbourRadius_def Math_min_def js_min2_def)
    qed
  next
    case (Some a)
    note na = this
    with fin obtain p where p: "a = Num p" "p \<noteq> 0" by blast
    show ?thesis
    proof (cases "nearestAfter radii i")
      case None
      with na p show ?thesis
        by (simp add: neighbourRadius_def Math_min_def js_min2_def)
    next
      case (Some b)
      with fin obtain q where "b = Num q" "q \<noteq> 0" by blast
      with na Some p show ?thesis
        by (simp add: neighbourRadius_def Math_min_def js_min2_def smaller_def)
    qed
  qed
qed

lemma inferStep_falsy:
  assumes "i < length ps" "\<not> truthy (radius (ps ! i))" "\<forall>r\<in>set (map radius ps). isFinite r"
  shows "inferStep xScale i ps ! i =
           setX (ps ! i) (scale_at xScale (js_neg (neighbourRadius (map radius ps) i)))
                         (scale_at xScale (neighbourRadius (map radius ps) i))"
proof -
  let ?m = "Math_min (present (nearestBefore (map radius ps) i) @ present (nearestAfter (map radius ps) i))"
  have n: "(if truthy ?m \<and> isFinite ?m then ?m else Num 1) = neighbourRadius (map radius ps) i"
    using Math_min_neighbours [OF assms(3), of i] by (simp add: Let_def)
  show ?thesis
  proof (cases "truthy ?m \<and> isFinite ?m")
    case True
    with n have "?m = neighbourRadius (map radius ps) i" by simp
    with True assms(1,2) show ?thesis
      unfolding inferStep_def Let_def neighbours_radii by simp
  next
    case False
    with n have "neighbourRadius (map radius ps) i = Num 1" by simp
    with False assms(1,2) show ?thesis
      unfolding inferStep_def Let_def neighbours_radii by auto
  qed
qed

text \<open>What the loop started at \<open>k\<close> returns, element by element.\<close>

lemma inferLoop_nth:
  assumes "\<forall>r\<in>set (map radius ps). isFinite r"
  shows "length (inferLoop xScale k ps) = length ps
       \<and> map radius (inferLoop xScale k ps) = map radius ps
       \<and> (\<forall>j<length ps. inferLoop xScale k ps ! j =
            (if j < k \<or> truthy (radius (ps ! j)) then ps ! j
             else setX (ps ! j) (scale_at xScale (js_neg (neighbourRadius (map radius ps) j)))
                                (scale_at xScale (neighbourRadius (map radius ps) j))))"
  using assms
proof (induction xScale k ps rule: inferLoop.induct)
  case (1 xScale k ps)
  show ?case
  proof (cases "k < length ps")
    case False
    then show ?thesis by (simp add: inferLoop.simps [of xScale k ps])
  next
    case True
    let ?ps1 = "inferStep xScale k ps"
    have r1: "map radius ?ps1 = map radius ps" by (rule map_radius_inferStep)
    have l1: "length ?ps1 = length ps" by (simp add: inferStep_def Let_def)
    have rj: "radius (?ps1 ! j) = radius (ps ! j)" if "j < length ps" for j
      using r1 that l1 by (metis nth_map)
    have unf: "inferLoop xScale k ps = inferLoop xScale (k + 1) ?ps1"
      using True by (simp add: inferLoop.simps [of xScale k ps])
    have ih: "length (inferLoop xScale (k + 1) ?ps1) = length ?ps1
       \<and> map radius (inferLoop xScale (k + 1) ?ps1) = map radius ?ps1
       \<and> (\<forall>j<length ?ps1. inferLoop xScale (k + 1) ?ps1 ! j =
            (if j < k + 1 \<or> truthy (radius (?ps1 ! j)) then ?ps1 ! j
             else setX (?ps1 ! j) (scale_at xScale (js_neg (neighbourRadius (map radius ?ps1) j)))
                                (scale_at xScale (neighbourRadius (map radius ?ps1) j))))"
      using "1.IH" [OF True] "1.prems" r1 by simp
    have nth: "inferLoop xScale k ps ! j =
            (if j < k \<or> truthy (radius (ps ! j)) then ps ! j
             else setX (ps ! j) (scale_at xScale (js_neg (neighbourRadius (map radius ps) j)))
                                (scale_at xScale (neighbourRadius (map radius ps) j)))"
      if j: "j < length ps" for j
    proof -
      have e: "inferLoop xScale k ps ! j =
            (if j < k + 1 \<or> truthy (radius (ps ! j)) then ?ps1 ! j
             else setX (?ps1 ! j) (scale_at xScale (js_neg (neighbourRadius (map radius ps) j)))
                                (scale_at xScale (neighbourRadius (map radius ps) j)))"
        using ih j l1 r1 rj [OF j] unf by simp
      show ?thesis
      proof (cases "j = k")
        case False
        then show ?thesis using e by (auto simp: inferStep_other)
      next
        case True
        show ?thesis
        proof (cases "truthy (radius (ps ! k))")
          case True
          with \<open>j = k\<close> e show ?thesis by (simp add: inferStep_truthy)
        next
          case False
          with \<open>j = k\<close> e j "1.prems" show ?thesis
            by (simp add: inferStep_falsy)
        qed
      qed
    qed
    show ?thesis
      using ih l1 r1 unf nth by simp
  qed
qed

text \<open>After the first pass: finite radii, and x at the radius when it is truthy.\<close>

lemma constructionPart_radius:
  assumes "constructionPart env xScale yScale e = Inr p"
  shows "isFinite (radius p)
       \<and> (truthy (radius p) \<longrightarrow>
            side_x (left p) = Some (scale_at xScale (js_neg (radius p)))
            \<and> side_x (right p) = Some (scale_at xScale (radius p)))"
  using assms
  by (auto simp: constructionPart_def Let_def split: option.splits)

lemma mapE_nth:
  "mapE f as = Inr bs \<Longrightarrow> length bs = length as \<and> (\<forall>i<length as. f (as ! i) = Inr (bs ! i))"
proof (induction as arbitrary: bs)
  case Nil
  then show ?case by simp
next
  case (Cons a as)
  then obtain b bs' where b: "f a = Inr b" "mapE f as = Inr bs'" "bs = b # bs'"
    by (auto split: sum.splits)
  with Cons.IH [of bs'] show ?case
    by (auto simp: nth_Cons split: nat.splits)
qed

lemma constructionParts_radius:
  assumes "constructionParts env xScale yScale es = Inr ps"
  shows "(\<forall>r\<in>set (map radius ps). isFinite r)
       \<and> (\<forall>i<length ps. truthy (radius (ps ! i)) \<longrightarrow>
            side_x (left (ps ! i)) = Some (scale_at xScale (js_neg (radius (ps ! i))))
            \<and> side_x (right (ps ! i)) = Some (scale_at xScale (radius (ps ! i))))"
proof -
  from assms have n: "length ps = length es"
    "\<And>i. i < length es \<Longrightarrow> constructionPart env xScale yScale (es ! i) = Inr (ps ! i)"
    unfolding constructionParts_def by (auto dest: mapE_nth)
  have "isFinite (radius (ps ! i))" if "i < length ps" for i
    using constructionPart_radius n that by metis
  then have "\<forall>r\<in>set (map radius ps). isFinite r"
    by (auto simp: in_set_conv_nth)
  then show ?thesis
    using constructionPart_radius n by metis
qed

text \<open>The second pass inside the combiner, for any elements and scales.\<close>

lemma inferredParts_resolved:
  assumes "constructionParts env xScale yScale elements = Inr parts"
    and "index < length parts"
  shows "\<exists>ps. inferredParts env xScale yScale elements = Inr ps
            \<and> length ps = length parts
            \<and> map radius ps = map radius parts
            \<and> side_x (left (ps ! index)) =
                Some (scale_at xScale (js_neg (resolvedRadius (map radius parts) index)))
            \<and> side_x (right (ps ! index)) =
                Some (scale_at xScale (resolvedRadius (map radius parts) index))"
proof -
  note fp = constructionParts_radius [OF assms(1)]
  let ?ps = "inferLoop xScale 0 parts"
  have loop: "length ?ps = length parts" "map radius ?ps = map radius parts"
    "?ps ! index =
       (if truthy (radius (parts ! index)) then parts ! index
        else setX (parts ! index)
               (scale_at xScale (js_neg (neighbourRadius (map radius parts) index)))
               (scale_at xScale (neighbourRadius (map radius parts) index)))"
    using inferLoop_nth [of parts xScale 0] fp assms(2) by simp_all
  have x: "side_x (left (?ps ! index)) =
             Some (scale_at xScale (js_neg (resolvedRadius (map radius parts) index)))
         \<and> side_x (right (?ps ! index)) =
             Some (scale_at xScale (resolvedRadius (map radius parts) index))"
  proof (cases "truthy (radius (parts ! index))")
    case True
    with fp assms(2) loop(3) show ?thesis
      by (simp add: resolvedRadius_def)
  next
    case False
    with assms(2) loop(3) show ?thesis
      by (simp add: resolvedRadius_def setX_def)
  qed
  show ?thesis
    using loop(1,2) x by (simp add: inferredParts_def assms(1))
qed

text \<open>
  C1. In \<^verbatim>\<open>getConstructionElements\<close>, after the first pass, the second pass
  gives every element x coordinates: at minus and plus its own radius when that
  is truthy, and otherwise at minus and plus the radius the rule of the
  specification gives: the smaller radius of the nearest truthy neighbours
  before and after it in list order, or 1 when there is no such neighbour.
  The radii themselves are not changed, and the selector returns these parts,
  sorted.
\<close>

theorem C1_radius_inference:
  assumes "getRadiusScale env st = Inr xScale"
    and "constructionParts env xScale (scaleY env) (getDrawableElements st) = Inr parts"
    and "index < length parts"
  shows "\<exists>ps. inferredParts env xScale (scaleY env) (getDrawableElements st) = Inr ps
            \<and> getConstructionElements env st = Inr (sortBy compareParts ps)
            \<and> length ps = length parts
            \<and> map radius ps = map radius parts
            \<and> side_x (left (ps ! index)) =
                Some (scale_at xScale (js_neg (resolvedRadius (map radius parts) index)))
            \<and> side_x (right (ps ! index)) =
                Some (scale_at xScale (resolvedRadius (map radius parts) index))"
proof -
  from inferredParts_resolved [OF assms(2,3)] obtain ps where
    ps: "inferredParts env xScale (scaleY env) (getDrawableElements st) = Inr ps"
      "length ps = length parts" "map radius ps = map radius parts"
      "side_x (left (ps ! index)) =
         Some (scale_at xScale (js_neg (resolvedRadius (map radius parts) index)))"
      "side_x (right (ps ! index)) =
         Some (scale_at xScale (resolvedRadius (map radius parts) index))"
    by blast
  have "getConstructionElements env st = Inr (sortBy compareParts ps)"
    by (simp add: getConstructionElements_def assms(1) constructionElements_def ps(1))
  with ps show ?thesis by blast
qed

text \<open>
  The radii 2, 0, 0, 5 (scales that map a number to itself): both elements
  without a radius get their x coordinates at minus and plus 2.
\<close>

lemma map_of_four:
  assumes "length xs = 4"
  shows "map f xs = [f (xs ! 0), f (xs ! 1), f (xs ! 2), f (xs ! 3)]"
proof -
  from assms obtain a b c d where "xs = [a, b, c, d]"
    by (auto simp: numeral_eq_Suc length_Suc_conv)
  then show ?thesis by simp
qed

lemma fourCasingsState_drawable: "getDrawableElements fourCasingsState = fourCasings"
  by (simp add: fourCasingsState_def stateWith_def getDrawableElements_def
      getCurrentWellLog_def fourCasings_def drawable_def mkElement_def)

lemma fourCasingsState_scale: "getRadiusScale exampleEnv fourCasingsState = Inr idScale"
proof -
  have "wellRadius fourCasings = Inr (Num 5)"
    by (simp add: wellRadius_def fourCasings_def diameterValue_def mkElement_def
        Math_max_def js_max2_def)
  then show ?thesis
    by (simp add: getRadiusScale_def getWellRadius_def fourCasingsState_drawable
        exampleEnv_def idScale_def)
qed

theorem C1_radius_inference_witness:
  "getRadiusScale exampleEnv fourCasingsState = Inr idScale
   \<and> map_sum id (map radius)
       (constructionParts exampleEnv idScale idScale (getDrawableElements fourCasingsState))
     = Inr [Num 2, Num 0, Num 0, Num 5]
   \<and> map_sum id (map (\<lambda>p. side_x (left p)))
       (inferredParts exampleEnv idScale idScale (getDrawableElements fourCasingsState))
     = Inr [Some (Num (- 2)), Some (Num (- 2)), Some (Num (- 2)), Some (Num (- 5))]
   \<and> map_sum id (map (\<lambda>p. side_x (right p)))
       (inferredParts exampleEnv idScale idScale (getDrawableElements fourCasingsState))
     = Inr [Some (Num 2), Some (Num 2), Some (Num 2), Some (Num 5)]"
proof -
  let ?f = "constructionPart exampleEnv idScale idScale"
  let ?es = "getDrawableElements fourCasingsState"
  have sy: "scaleY exampleEnv = idScale" by (simp add: exampleEnv_def)
  define parts where "parts = map (\<lambda>e. projr (?f e)) fourCasings"
  have mk: "\<not> isl (?f (mkElement a b d))
      \<and> radius (projr (?f (mkElement a b d))) = (case d of None \<Rightarrow> Num 0 | Some v \<Rightarrow> Num (v / 2))"
    for a b d
    by (simp add: constructionPart_def mkElement_def Let_def)
  have "?f e = Inr (projr (?f e))" if "e \<in> set fourCasings" for e
    using that mk by (auto simp: fourCasings_def)
  then have "constructionParts exampleEnv idScale idScale fourCasings = Inr parts"
    unfolding constructionParts_def parts_def by (rule mapE_Inr)
  then have cp: "constructionParts exampleEnv idScale (scaleY exampleEnv) ?es = Inr parts"
    by (simp add: fourCasingsState_drawable sy)
  have radii: "map radius parts = [Num 2, Num 0, Num 0, Num 5]"
    by (simp add: parts_def fourCasings_def mk)
  have len: "length parts = 4"
    by (simp add: parts_def fourCasings_def)
  define ps where "ps = inferLoop idScale 0 parts"
  have ip: "inferredParts exampleEnv idScale (scaleY exampleEnv) ?es = Inr ps"
    by (simp add: inferredParts_def cp ps_def)
  have r: "resolvedRadius [Num 2, Num 0, Num 0, Num 5] 0 = Num 2"
    "resolvedRadius [Num 2, Num 0, Num 0, Num 5] (Suc 0) = Num 2"
    "resolvedRadius [Num 2, Num 0, Num 0, Num 5] 2 = Num 2"
    "resolvedRadius [Num 2, Num 0, Num 0, Num 5] 3 = Num 5"
    by (simp_all add: resolvedRadius_def neighbourRadius_def nearestBefore_def nearestAfter_def
        smaller_def numeral_2_eq_2 numeral_3_eq_3)
  have x: "length ps = 4
     \<and> side_x (left (ps ! i)) = Some (js_neg (resolvedRadius [Num 2, Num 0, Num 0, Num 5] i))
     \<and> side_x (right (ps ! i)) = Some (resolvedRadius [Num 2, Num 0, Num 0, Num 5] i)"
    if "i < 4" for i
    using C1_radius_inference [OF fourCasingsState_scale cp, of i] that len ip radii
    by (auto simp: idScale_def)
  have x0: "length ps = 4" using x [of 0] by simp
  have "map (\<lambda>p. side_x (left p)) ps
          = [Some (Num (- 2)), Some (Num (- 2)), Some (Num (- 2)), Some (Num (- 5))]"
    "map (\<lambda>p. side_x (right p)) ps = [Some (Num 2), Some (Num 2), Some (Num 2), Some (Num 5)]"
    using x [of 0] x [of 1] x [of 2] x [of 3]
    by (simp_all add: map_of_four [OF x0] r)
  then show ?thesis
    using cp radii ip fourCasingsState_scale by (simp add: sy)
qed

section \<open>The drawing order: theorems\<close>

lemma set_insertBy: "set (insertBy cmp a bs) = insert a (set bs)"
  by (induction bs) auto

lemma sortBy_Nil: "sortBy cmp [] = []"
  by (simp add: sortBy_def)

lemma sortBy_Cons: "sortBy cmp (a # as) = insertBy cmp a (sortBy cmp as)"
  by (simp add: sortBy_def)

lemma set_sortBy: "set (sortBy cmp as) = set as"
  by (induction as) (simp_all add: sortBy_Nil sortBy_Cons set_insertBy)

lemma mset_insertBy: "mset (insertBy cmp a bs) = add_mset a (mset bs)"
  by (induction bs) simp_all

lemma mset_sortBy: "mset (sortBy cmp as) = mset as"
  by (induction as) (simp_all add: sortBy_Nil sortBy_Cons mset_insertBy)

text \<open>
  Stability needs one thing of the comparator: two elements the predicate
  selects are never put apart by it.
\<close>

lemma filter_insertBy:
  assumes "\<And>b. b \<in> set bs \<Longrightarrow> P a \<Longrightarrow> P b \<Longrightarrow> cmp a b \<le> 0"
  shows "filter P (insertBy cmp a bs) = filter P (a # bs)"
  using assms
proof (induction bs)
  case Nil
  show ?case by simp
next
  case (Cons b bs)
  show ?case
  proof (cases "cmp a b \<le> 0")
    case True
    then show ?thesis by simp
  next
    case False
    then have "\<not> (P a \<and> P b)" using Cons.prems [of b] by auto
    moreover have "filter P (insertBy cmp a bs) = filter P (a # bs)"
      using Cons.IH Cons.prems by simp
    ultimately show ?thesis using False by auto
  qed
qed

lemma filter_sortBy:
  assumes "\<And>a b. a \<in> set as \<Longrightarrow> b \<in> set as \<Longrightarrow> P a \<Longrightarrow> P b \<Longrightarrow> cmp a b \<le> 0"
  shows "filter P (sortBy cmp as) = filter P as"
  using assms
proof (induction as)
  case Nil
  show ?case by (simp add: sortBy_Nil)
next
  case (Cons a as)
  have ih: "filter P (sortBy cmp as) = filter P as"
    using Cons.IH Cons.prems by simp
  have "filter P (insertBy cmp a (sortBy cmp as)) = filter P (a # sortBy cmp as)"
    by (rule filter_insertBy) (use Cons.prems in \<open>simp add: set_sortBy\<close>)
  then show ?case
    by (simp add: sortBy_Cons ih)
qed

lemma js_lt_irrefl: "\<not> js_lt a a"
  by (cases a) simp_all

lemma js_lt_trans: "js_lt a b \<Longrightarrow> js_lt b c \<Longrightarrow> js_lt a c"
  by (cases a; cases b; cases c) simp_all

lemma js_lt_asym: "js_lt a b \<Longrightarrow> \<not> js_lt b a"
  by (cases a; cases b) simp_all

lemma js_lt_total: "a \<noteq> NaN \<Longrightarrow> b \<noteq> NaN \<Longrightarrow> js_lt a b \<or> a = b \<or> js_lt b a"
  by (cases a; cases b) auto

lemma compareParts_same_key: "sortKey a = sortKey b \<Longrightarrow> compareParts a b = 0"
  by (simp add: sortKey_def compareParts_def js_gt_def js_lt_irrefl)

lemma zOrder_iff:
  "zOrder a b =
     (js_lt (side_y2 (left b)) (side_y2 (left a))
      \<or> (side_y2 (left a) = side_y2 (left b)
          \<and> (js_lt (radius b) (radius a) \<or> radius a = radius b)))"
  by (simp add: zOrder_def js_gt_def)

lemma zOrder_trans:
  assumes "zOrder a b" "zOrder b c"
  shows "zOrder a c"
proof (cases "js_lt (side_y2 (left b)) (side_y2 (left a))")
  case True
  with assms(2) have "js_lt (side_y2 (left c)) (side_y2 (left a))"
    unfolding zOrder_iff using js_lt_trans by metis
  then show ?thesis by (simp add: zOrder_iff)
next
  case False
  with assms(1) have e: "side_y2 (left a) = side_y2 (left b)"
    "js_lt (radius b) (radius a) \<or> radius a = radius b"
    unfolding zOrder_iff by simp_all
  show ?thesis
  proof (cases "js_lt (side_y2 (left c)) (side_y2 (left b))")
    case True
    with e(1) show ?thesis by (simp add: zOrder_iff)
  next
    case False
    with assms(2) have f: "side_y2 (left b) = side_y2 (left c)"
      "js_lt (radius c) (radius b) \<or> radius b = radius c"
      unfolding zOrder_iff by simp_all
    from e(2) f(2) have "js_lt (radius c) (radius a) \<or> radius a = radius c"
      using js_lt_trans by metis
    with e(1) f(1) show ?thesis by (simp add: zOrder_iff)
  qed
qed

lemma compareParts_le:
  "(compareParts a b \<le> 0) =
     (\<not> js_lt (side_y2 (left a)) (side_y2 (left b))
      \<and> (js_lt (side_y2 (left b)) (side_y2 (left a)) \<or> \<not> js_lt (radius a) (radius b)))"
  by (simp add: compareParts_def js_gt_def)

text \<open>Without NaN among the keys the comparator decides the specified order.\<close>

lemma compareParts_zOrder:
  assumes "keysDefined a" "keysDefined b"
  shows "(compareParts a b \<le> 0) = zOrder a b"
proof -
  have y: "js_lt (side_y2 (left a)) (side_y2 (left b)) \<or> side_y2 (left a) = side_y2 (left b)
           \<or> js_lt (side_y2 (left b)) (side_y2 (left a))"
    using assms by (simp add: keysDefined_def js_lt_total)
  have r: "js_lt (radius a) (radius b) \<or> radius a = radius b \<or> js_lt (radius b) (radius a)"
    using assms by (simp add: keysDefined_def js_lt_total)
  show ?thesis
    unfolding compareParts_le zOrder_iff
    using y r js_lt_asym js_lt_irrefl by metis
qed

lemma zOrder_total:
  assumes "keysDefined a" "keysDefined b"
  shows "zOrder a b \<or> zOrder b a"
proof -
  have y: "js_lt (side_y2 (left a)) (side_y2 (left b)) \<or> side_y2 (left a) = side_y2 (left b)
           \<or> js_lt (side_y2 (left b)) (side_y2 (left a))"
    using assms by (simp add: keysDefined_def js_lt_total)
  have r: "js_lt (radius a) (radius b) \<or> radius a = radius b \<or> js_lt (radius b) (radius a)"
    using assms by (simp add: keysDefined_def js_lt_total)
  show ?thesis
    unfolding zOrder_iff using y r by metis
qed

lemma sorted_insertBy:
  assumes "sorted_wrt zOrder bs" "keysDefined a" "\<forall>b\<in>set bs. keysDefined b"
  shows "sorted_wrt zOrder (insertBy compareParts a bs)"
  using assms
proof (induction bs)
  case Nil
  show ?case by simp
next
  case (Cons b bs)
  show ?case
  proof (cases "compareParts a b \<le> 0")
    case True
    then have ab: "zOrder a b" using Cons.prems by (simp add: compareParts_zOrder)
    then have "\<forall>c\<in>set bs. zOrder a c"
      using Cons.prems(1) zOrder_trans by auto
    with ab True Cons.prems(1) show ?thesis by simp
  next
    case False
    then have "\<not> zOrder a b" using Cons.prems by (simp add: compareParts_zOrder)
    then have ba: "zOrder b a" using zOrder_total [of a b] Cons.prems by simp
    have "sorted_wrt zOrder (insertBy compareParts a bs)"
      using Cons.IH Cons.prems by simp
    with ba False Cons.prems(1) show ?thesis
      by (simp add: set_insertBy)
  qed
qed

lemma sorted_sortBy:
  assumes "\<forall>a\<in>set as. keysDefined a"
  shows "sorted_wrt zOrder (sortBy compareParts as)"
  using assms
proof (induction as)
  case Nil
  show ?case by (simp add: sortBy_Nil)
next
  case (Cons a as)
  have "sorted_wrt zOrder (insertBy compareParts a (sortBy compareParts as))"
    by (rule sorted_insertBy) (use Cons in \<open>simp_all add: set_sortBy\<close>)
  then show ?case by (simp add: sortBy_Cons)
qed

text \<open>The sort inside the combiner, for any elements and scales.\<close>

lemma constructionElements_sorted_stable:
  assumes "constructionElements env xScale yScale elements = Inr out"
    and "\<forall>p\<in>set out. side_y2 (left p) \<noteq> NaN"
  shows "sorted_wrt zOrder out
       \<and> (\<exists>pre. inferredParts env xScale yScale elements = Inr pre
              \<and> mset out = mset pre
              \<and> (\<forall>k. filter (\<lambda>p. sortKey p = k) out = filter (\<lambda>p. sortKey p = k) pre))"
proof -
  from assms(1) obtain parts where cp: "constructionParts env xScale yScale elements = Inr parts"
    by (cases "constructionParts env xScale yScale elements")
       (simp_all add: constructionElements_def inferredParts_def)
  define pre where "pre = inferLoop xScale 0 parts"
  have ip: "inferredParts env xScale yScale elements = Inr pre"
    by (simp add: inferredParts_def cp pre_def)
  have out: "out = sortBy compareParts pre"
    using assms(1) by (simp add: constructionElements_def ip)
  have fin: "\<forall>r\<in>set (map radius parts). isFinite r"
    using constructionParts_radius [OF cp] by simp
  have "map radius pre = map radius parts"
    unfolding pre_def using inferLoop_nth [OF fin] by simp
  with fin have "\<forall>r\<in>set (map radius pre). isFinite r" by simp
  then have rad: "radius p \<noteq> NaN" if "p \<in> set pre" for p
    using that by fastforce
  have "set out = set pre" by (simp add: out set_sortBy)
  with assms(2) rad have "\<forall>p\<in>set pre. keysDefined p"
    by (simp add: keysDefined_def)
  then have "sorted_wrt zOrder out"
    unfolding out by (rule sorted_sortBy)
  moreover have "mset out = mset pre"
    by (simp add: out mset_sortBy)
  moreover have "filter (\<lambda>p. sortKey p = k) out = filter (\<lambda>p. sortKey p = k) pre" for k
    unfolding out by (rule filter_sortBy) (simp add: compareParts_same_key)
  ultimately show ?thesis
    using ip by simp
qed

lemma inferLoop_all_truthy:
  "\<forall>p\<in>set ps. truthy (radius p) \<Longrightarrow> inferLoop xScale k ps = ps"
proof (induction xScale k ps rule: inferLoop.induct)
  case (1 xScale k ps)
  show ?case
  proof (cases "k < length ps")
    case True
    then have "inferStep xScale k ps = ps"
      using "1.prems" by (simp add: inferStep_truthy)
    with True 1 show ?thesis
      by (simp add: inferLoop.simps [of xScale k ps])
  next
    case False
    then show ?thesis by (simp add: inferLoop.simps [of xScale k ps])
  qed
qed

text \<open>
  The pairs (10, 2), (10, 5), (5, 3) are sorted to (10, 5), (10, 2), (5, 3).
\<close>

lemma threeCasings_sorted:
  "map_sum id (map sortKey) (inferredParts exampleEnv idScale idScale threeCasings)
     = Inr [(Num 10, Num 2), (Num 10, Num 5), (Num 5, Num 3)]
   \<and> map_sum id (map sortKey) (constructionElements exampleEnv idScale idScale threeCasings)
     = Inr [(Num 10, Num 5), (Num 10, Num 2), (Num 5, Num 3)]
   \<and> map_sum id (sorted_wrt zOrder) (constructionElements exampleEnv idScale idScale threeCasings)
     = Inr True"
proof -
  let ?f = "constructionPart exampleEnv idScale idScale"
  define p0 where "p0 = projr (?f (mkElement 0 10 (Some 4)))"
  define p1 where "p1 = projr (?f (mkElement 0 10 (Some 10)))"
  define p2 where "p2 = projr (?f (mkElement 0 5 (Some 6)))"
  have mk: "\<not> isl (?f (mkElement a b d))
      \<and> radius (projr (?f (mkElement a b d))) = (case d of None \<Rightarrow> Num 0 | Some v \<Rightarrow> Num (v / 2))
      \<and> side_y2 (left (projr (?f (mkElement a b d)))) = Num b"
    for a b d
    by (simp add: constructionPart_def mkElement_def Let_def idScale_def)
  have keys: "side_y2 (left p0) = Num 10" "radius p0 = Num 2"
    "side_y2 (left p1) = Num 10" "radius p1 = Num 5"
    "side_y2 (left p2) = Num 5" "radius p2 = Num 3"
    by (simp_all add: p0_def p1_def p2_def mk)
  have "?f e = Inr (projr (?f e))" if "e \<in> set threeCasings" for e
    using that mk by (auto simp: threeCasings_def)
  then have "mapE ?f threeCasings = Inr (map (\<lambda>e. projr (?f e)) threeCasings)"
    by (rule mapE_Inr)
  then have cp: "constructionParts exampleEnv idScale idScale threeCasings = Inr [p0, p1, p2]"
    by (simp add: constructionParts_def threeCasings_def p0_def p1_def p2_def)
  have "inferLoop idScale 0 [p0, p1, p2] = [p0, p1, p2]"
    by (rule inferLoop_all_truthy) (simp add: keys)
  then have ip: "inferredParts exampleEnv idScale idScale threeCasings = Inr [p0, p1, p2]"
    by (simp add: inferredParts_def cp)
  have "sortBy compareParts [p0, p1, p2] = [p1, p0, p2]"
    by (simp add: sortBy_Cons sortBy_Nil compareParts_le keys)
  then have ce: "constructionElements exampleEnv idScale idScale threeCasings = Inr [p1, p0, p2]"
    by (simp add: constructionElements_def ip)
  have "\<forall>p\<in>set [p1, p0, p2]. side_y2 (left p) \<noteq> NaN"
    by (simp add: keys)
  from constructionElements_sorted_stable [OF ce this] have "sorted_wrt zOrder [p1, p0, p2]"
    by blast
  then show ?thesis
    by (simp add: ip ce sortKey_def keys)
qed

text \<open>
  C4. Provided no \<^verbatim>\<open>left.y2\<close> is NaN, the list \<^verbatim>\<open>getConstructionElements\<close>
  returns is sorted: of two parts, the one drawn first has the greater
  \<^verbatim>\<open>left.y2\<close>, or the same and a radius that is not smaller. It has the parts
  of the list before the sort, and parts with the same \<^verbatim>\<open>left.y2\<close> and the same
  radius keep the order they had there.
\<close>

theorem C4_sorted_stable:
  assumes "getConstructionElements env st = Inr out"
    and "\<forall>p\<in>set out. side_y2 (left p) \<noteq> NaN"
  shows "sorted_wrt zOrder out
       \<and> (\<exists>xScale pre.
            getRadiusScale env st = Inr xScale
            \<and> inferredParts env xScale (scaleY env) (getDrawableElements st) = Inr pre
            \<and> mset out = mset pre
            \<and> (\<forall>k. filter (\<lambda>p. sortKey p = k) out = filter (\<lambda>p. sortKey p = k) pre))"
proof -
  from assms(1) obtain xScale where x: "getRadiusScale env st = Inr xScale"
    and ce: "constructionElements env xScale (scaleY env) (getDrawableElements st) = Inr out"
    by (cases "getRadiusScale env st") (simp_all add: getConstructionElements_def)
  from constructionElements_sorted_stable [OF ce assms(2)] x show ?thesis
    by blast
qed

lemma threeCasingsState_elements:
  "getConstructionElements exampleEnv threeCasingsState
     = constructionElements exampleEnv idScale idScale threeCasings"
proof -
  have d: "getDrawableElements threeCasingsState = threeCasings"
    by (simp add: threeCasingsState_def stateWith_def getDrawableElements_def
        getCurrentWellLog_def threeCasings_def drawable_def mkElement_def)
  have "wellRadius threeCasings = Inr (Num 5)"
    by (simp add: wellRadius_def threeCasings_def diameterValue_def mkElement_def
        Math_max_def js_max2_def)
  then have "getRadiusScale exampleEnv threeCasingsState = Inr idScale"
    by (simp add: getRadiusScale_def getWellRadius_def d exampleEnv_def idScale_def)
  then show ?thesis
    by (simp add: getConstructionElements_def d) (simp add: exampleEnv_def)
qed

theorem C4_sorted_stable_witness:
  "map_sum id (map sortKey) (getConstructionElements exampleEnv threeCasingsState)
     = Inr [(Num 10, Num 5), (Num 10, Num 2), (Num 5, Num 3)]
   \<and> map_sum id (sorted_wrt zOrder) (getConstructionElements exampleEnv threeCasingsState)
     = Inr True"
proof -
  obtain out where out: "getConstructionElements exampleEnv threeCasingsState = Inr out"
    and keys: "map sortKey out = [(Num 10, Num 5), (Num 10, Num 2), (Num 5, Num 3)]"
    using threeCasings_sorted unfolding threeCasingsState_elements
    by (cases "constructionElements exampleEnv idScale idScale threeCasings") auto
  have "side_y2 (left p) \<noteq> NaN" if "p \<in> set out" for p
  proof -
    from that have "sortKey p \<in> set (map sortKey out)" by simp
    then show ?thesis unfolding keys by (auto simp: sortKey_def)
  qed
  then have "\<forall>p\<in>set out. side_y2 (left p) \<noteq> NaN" by blast
  from C4_sorted_stable [OF out this] have "sorted_wrt zOrder out" by blast
  then show ?thesis
    by (simp add: out keys)
qed


section \<open>Retrieval: theorems\<close>

lemma status_after_status:
  "getWaterLevelStatus a s (reducer st (WATER_LEVELS_CALL_STATUS a s status)) = Some status"
  by (simp add: getWaterLevelStatus_def)

lemma status_after_set:
  "getWaterLevelStatus a s (reducer st (WATER_LEVELS_SET a' s' levels)) = getWaterLevelStatus a s st"
  by (simp add: getWaterLevelStatus_def)

lemma levels_after_set:
  "getSiteWaterLevels a s (reducer st (WATER_LEVELS_SET a s levels)) = levels"
  by (simp add: getSiteWaterLevels_def)

lemma levels_after_status:
  "getSiteWaterLevels a s (reducer st (WATER_LEVELS_CALL_STATUS a' s' status)) = getSiteWaterLevels a s st"
  by (simp add: getSiteWaterLevels_def)

text \<open>
  C2. A retrieval for a key whose status is neither STARTED nor DONE, with a
  fetch that succeeds, dispatches exactly three actions: the status STARTED,
  the records, the status DONE. After the first the status is STARTED and the
  stored data are what they were; after the second the records are stored and
  the status is still STARTED; after the third the status is DONE and the
  records are stored.
\<close>

theorem C2_retrieval_sequence:
  assumes "getWaterLevelStatus agencyCode siteId st \<noteq> Some ''STARTED''"
    and "getWaterLevelStatus agencyCode siteId st \<noteq> Some ''DONE''"
    and "fetch agencyCode siteId = Resolved levels"
  shows "retrieveWaterLevels fetch agencyCode siteId st =
           [WATER_LEVELS_CALL_STATUS agencyCode siteId ''STARTED'',
            WATER_LEVELS_SET agencyCode siteId levels,
            WATER_LEVELS_CALL_STATUS agencyCode siteId ''DONE'']
       \<and> (\<exists>s1 s2 s3.
            statesAfter st (retrieveWaterLevels fetch agencyCode siteId st) = [s1, s2, s3]
            \<and> getWaterLevelStatus agencyCode siteId s1 = Some ''STARTED''
            \<and> wl_data s1 = wl_data st
            \<and> getWaterLevelStatus agencyCode siteId s2 = Some ''STARTED''
            \<and> getSiteWaterLevels agencyCode siteId s2 = levels
            \<and> getWaterLevelStatus agencyCode siteId s3 = Some ''DONE''
            \<and> getSiteWaterLevels agencyCode siteId s3 = levels)"
proof -
  have acts: "retrieveWaterLevels fetch agencyCode siteId st =
           [WATER_LEVELS_CALL_STATUS agencyCode siteId ''STARTED'',
            WATER_LEVELS_SET agencyCode siteId levels,
            WATER_LEVELS_CALL_STATUS agencyCode siteId ''DONE'']"
    using assms by (simp add: retrieveWaterLevels_def)
  show ?thesis
    unfolding acts
    by (simp add: status_after_status status_after_set levels_after_set levels_after_status
        del: reducer.simps)
       (simp add: getWaterLevelStatus_def)
qed

theorem C2_retrieval_sequence_witness:
  "getWaterLevelStatus ''USGS'' ''430406089232901'' emptyStore = None
   \<and> exampleFetch ''USGS'' ''430406089232901'' = Resolved exampleLevels
   \<and> retrieveWaterLevels exampleFetch ''USGS'' ''430406089232901'' emptyStore =
       [WATER_LEVELS_CALL_STATUS ''USGS'' ''430406089232901'' ''STARTED'',
        WATER_LEVELS_SET ''USGS'' ''430406089232901'' exampleLevels,
        WATER_LEVELS_CALL_STATUS ''USGS'' ''430406089232901'' ''DONE'']"
proof -
  have n: "getWaterLevelStatus ''USGS'' ''430406089232901'' emptyStore = None"
    by (simp add: getWaterLevelStatus_def emptyStore_def)
  have f: "exampleFetch ''USGS'' ''430406089232901'' = Resolved exampleLevels"
    by (simp add: exampleFetch_def)
  show ?thesis
    using C2_retrieval_sequence [of "''USGS''" "''430406089232901''" emptyStore exampleFetch
        exampleLevels] n f
    by simp
qed


section \<open>The retrieval gate of the table component: theorems\<close>





section \<open>Drawing the table: theorems\<close>

text \<open>Drawing the table reverses the samples the store holds for the site.\<close>

lemma linkedDraw_reverses:
  "storedSamples (fst (linkedDraw h st True agencyCode siteId)) st agencyCode siteId
     = rev (storedSamples h st agencyCode siteId)"
  by (simp add: linkedDraw_def drawTableBody_def storedSamples_def split: option.splits)

lemma linkedDraw_rows:
  "snd (linkedDraw h st True agencyCode siteId) = Some (rev (storedSamples h st agencyCode siteId))"
  by (simp add: linkedDraw_def drawTableBody_def storedSamples_def split: option.splits)

text \<open>
  C5 fails on the code. The store holds the samples 1, 2, 3 for the site; after
  the table has been drawn once it holds 3, 2, 1, and a second drawing shows
  the rows 1, 2, 3, no longer reversed.
\<close>

theorem C5_draw_reverses_stored_samples:
  "storedSamples exampleHeap storeWithLevels ''USGS'' ''430406089232901'' = [1, 2, 3]
   \<and> storedSamples
        (fst (linkedDraw exampleHeap storeWithLevels True ''USGS'' ''430406089232901''))
        storeWithLevels ''USGS'' ''430406089232901'' = [3, 2, 1]
   \<and> snd (linkedDraw
            (fst (linkedDraw exampleHeap storeWithLevels True ''USGS'' ''430406089232901''))
            storeWithLevels True ''USGS'' ''430406089232901'') = Some [1, 2, 3]"
proof -
  have s: "storedSamples exampleHeap storeWithLevels ''USGS'' ''430406089232901'' = [1, 2, 3]"
    by (simp add: storedSamples_def storeWithLevels_def getSiteWaterLevels_def exampleLevels_def
        exampleHeap_def)
  show ?thesis
    by (simp add: linkedDraw_reverses linkedDraw_rows s)
qed

end
